theory Spec2Isabelle
  imports Complex_Main
begin

section \<open>Data model\<close>

text \<open>
  The detector of \<^verbatim>\<open>drowsiness_detector.py\<close> consumes, per frame, the eye aspect ratio
  (EAR) of every face the external face detector returns, in detection order. The EAR
  values are Python floats compared with \<^verbatim>\<open><\<close>; they are modelled as reals, and clock
  readings (\<^verbatim>\<open>datetime.now()\<close>) as reals counting seconds. Frame counters are Python
  ints, modelled as \<open>int\<close>. Drawing on the frame and playing the alert sound have no
  effect on the state or on the returned results and are left out.
\<close>

type_synonym instant = real

text \<open>The dictionary built by \<^verbatim>\<open>log_drowsy_event\<close>.\<close>

record drowsy_event =
  timestamp :: instant
  ear_value :: real
  session_duration :: real

text \<open>The attributes of a \<^verbatim>\<open>DrowsinessDetector\<close> object.\<close>

record detector =
  thresh :: real
  frame_check :: int
  model_path :: string
  music_path :: string
  log_file :: string
  flag :: int
  session_start :: instant
  drowsy_events :: "drowsy_event list"
  total_frames :: int
  drowsy_frames :: int
  ear_history :: "real list"

text \<open>The \<^verbatim>\<open>results\<close> dictionary returned by \<^verbatim>\<open>process_frame\<close>.\<close>

record results =
  drowsy :: bool
  ear :: real
  faces_detected :: nat
  alert_triggered :: bool

text \<open>The dictionary returned by \<^verbatim>\<open>get_session_stats\<close>.\<close>

record session_stats =
  stats_session_duration :: real
  stats_total_frames :: int
  stats_drowsy_frames :: int
  stats_drowsy_events :: nat
  stats_drowsiness_percentage :: real
  current_ear :: real
  avg_ear :: real

text \<open>The \<^verbatim>\<open>ear_stats\<close> entry and the session summary written by \<^verbatim>\<open>save_session_log\<close>.\<close>

record ear_summary =
  ear_mean :: real
  ear_min :: real
  ear_max :: real

record session_data =
  log_session_id :: instant
  duration_seconds :: real
  log_total_frames :: int
  log_drowsy_frames :: int
  log_drowsy_events :: nat
  drowsiness_percentage :: real
  events :: "drowsy_event list"
  ear_stats :: ear_summary

text \<open>
  The status dictionary of \<^verbatim>\<open>live_session_status.json\<close>; a key that is absent from the
  dictionary is \<open>None\<close>. Time stamps in it are the strings the program formats.
\<close>

record live_status =
  active :: "bool option"
  start_time :: "string option"
  output_file :: "string option"
  session_id :: "string option"
  end_time :: "string option"
  completed :: "bool option"
  error :: "string option"

text \<open>
  What \<^verbatim>\<open>json.load\<close> can return for the two files the program reads: an array of session
  summaries, a status object, or any other JSON value. A file is missing, present but
  not parseable as JSON, or holds a JSON document. \<^verbatim>\<open>os.path.exists\<close> is \<open>exists\<close>.
\<close>

datatype json_doc = Logs "session_data list" | Status live_status | Other

datatype file_content = Missing | Unparseable | Json json_doc

type_synonym filesystem = "string \<Rightarrow> file_content"

definition exists :: "filesystem \<Rightarrow> string \<Rightarrow> bool" where
  "exists fs p = (fs p \<noteq> Missing)"

datatype py_error = FileNotFoundError | AttributeError | PygameError | RuntimeError

text \<open>
  The library calls of the constructor that can raise: \<^verbatim>\<open>mixer.init()\<close>,
  \<^verbatim>\<open>mixer.music.load(path)\<close> (both with \<^verbatim>\<open>pygame.error\<close>) and
  \<^verbatim>\<open>dlib.shape_predictor(path)\<close> (with \<^verbatim>\<open>RuntimeError\<close>). The environment says for each
  whether it succeeds.
\<close>

record libraries =
  mixer_init :: bool
  music_load :: "string \<Rightarrow> bool"
  shape_predictor :: "string \<Rightarrow> bool"

section \<open>The detector\<close>

definition reset_session :: "instant \<Rightarrow> detector \<Rightarrow> detector" where
  "reset_session now d =
     d\<lparr>flag := 0, session_start := now, drowsy_events := [], total_frames := 0,
       drowsy_frames := 0, ear_history := []\<rparr>"

text \<open>
  \<^verbatim>\<open>__init__\<close>: stores its arguments, initialises the mixer, loads the alert sound when
  its file exists, loads the landmark model when its file exists and raises
  \<^verbatim>\<open>FileNotFoundError\<close> when it does not, and then resets the session. The first call
  that raises ends the construction.
\<close>

definition DrowsinessDetector ::
  "real \<Rightarrow> int \<Rightarrow> string \<Rightarrow> string \<Rightarrow> string \<Rightarrow> instant \<Rightarrow> libraries \<Rightarrow> filesystem
     \<Rightarrow> py_error + detector" where
  "DrowsinessDetector th fc mp mu lf now env fs =
     (if \<not> mixer_init env then Inl PygameError
      else if exists fs mu \<and> \<not> music_load env mu then Inl PygameError
      else if exists fs mp
      then (if shape_predictor env mp
            then Inr (reset_session now
                   \<lparr>thresh = th, frame_check = fc, model_path = mp, music_path = mu,
                    log_file = lf, flag = 0, session_start = now, drowsy_events = [],
                    total_frames = 0, drowsy_frames = 0, ear_history = []\<rparr>)
            else Inl RuntimeError)
      else Inl FileNotFoundError)"

text \<open>An environment in which every library call succeeds.\<close>

definition working_libraries :: libraries where
  "working_libraries =
     \<lparr>mixer_init = True, music_load = (\<lambda>p. True), shape_predictor = (\<lambda>p. True)\<rparr>"

definition log_drowsy_event :: "instant \<Rightarrow> real \<Rightarrow> detector \<Rightarrow> detector" where
  "log_drowsy_event now e d =
     d\<lparr>drowsy_events := drowsy_events d @
         [\<lparr>timestamp = now, ear_value = e, session_duration = now - session_start d\<rparr>]\<rparr>"

text \<open>
  The body of the loop \<^verbatim>\<open>for subject in subjects\<close> of \<^verbatim>\<open>process_frame\<close>, for a subject
  whose averaged eye aspect ratio is \<open>e\<close>.
\<close>

fun subject_step :: "instant \<Rightarrow> real \<Rightarrow> detector \<times> results \<Rightarrow> detector \<times> results" where
  "subject_step now e (d, r) =
     (if e < thresh d
      then (if flag d + 1 \<ge> frame_check d
            then ((if flag d + 1 = frame_check d
                   then log_drowsy_event now e
                   else id)
                    (d\<lparr>ear_history := ear_history d @ [e], flag := flag d + 1,
                       drowsy_frames := drowsy_frames d + 1\<rparr>),
                  r\<lparr>ear := e, drowsy := True, alert_triggered := True\<rparr>)
            else (d\<lparr>ear_history := ear_history d @ [e], flag := flag d + 1,
                    drowsy_frames := drowsy_frames d + 1\<rparr>,
                  r\<lparr>ear := e, drowsy := True\<rparr>))
      else (d\<lparr>ear_history := ear_history d @ [e], flag := 0\<rparr>, r\<lparr>ear := e\<rparr>))"

text \<open>
  \<^verbatim>\<open>process_frame\<close> on a frame in which the face detector finds the subjects with the
  given EAR values, read at clock time \<open>now\<close>.
\<close>

definition process_frame :: "instant \<Rightarrow> real list \<Rightarrow> detector \<Rightarrow> detector \<times> results" where
  "process_frame now subjects d =
     fold (subject_step now) subjects
       (d\<lparr>total_frames := total_frames d + 1\<rparr>,
        \<lparr>drowsy = False, ear = 0, faces_detected = length subjects, alert_triggered = False\<rparr>)"

definition mean :: "real list \<Rightarrow> real" where
  "mean xs = sum_list xs / real (length xs)"

definition get_session_stats :: "instant \<Rightarrow> detector \<Rightarrow> session_stats" where
  "get_session_stats now d =
     \<lparr>stats_session_duration = now - session_start d,
      stats_total_frames = total_frames d,
      stats_drowsy_frames = drowsy_frames d,
      stats_drowsy_events = length (drowsy_events d),
      stats_drowsiness_percentage =
        (real_of_int (drowsy_frames d) / real_of_int (max (total_frames d) 1)) * 100,
      current_ear = (if ear_history d \<noteq> [] then last (ear_history d) else 0),
      avg_ear = (if ear_history d \<noteq> [] then mean (ear_history d) else 0)\<rparr>"

text \<open>
  A driver loop as in \<^verbatim>\<open>realtime_detector.py\<close>: the frames are processed in order, each
  with its clock reading and the EAR values of its subjects.
\<close>

definition process_frames :: "(instant \<times> real list) list \<Rightarrow> detector \<Rightarrow> detector" where
  "process_frames frames d = fold (\<lambda>(now, subjects) d'. fst (process_frame now subjects d')) frames d"

text \<open>A frame sequence in which every frame shows exactly one face.\<close>

definition single_face :: "(instant \<times> real) list \<Rightarrow> (instant \<times> real list) list" where
  "single_face tes = map (\<lambda>(now, e). (now, [e])) tes"

text \<open>The calls a session can receive, and a detector driven by a sequence of them.\<close>

datatype session_call = ProcessFrame instant "real list" | ResetSession instant

fun apply_call :: "session_call \<Rightarrow> detector \<Rightarrow> detector" where
  "apply_call (ProcessFrame now subjects) d = fst (process_frame now subjects d)"
| "apply_call (ResetSession now) d = reset_session now d"

definition session_calls :: "session_call list \<Rightarrow> detector \<Rightarrow> detector" where
  "session_calls cs d = fold apply_call cs d"

text \<open>
  The detector that \<^verbatim>\<open>DrowsinessDetector(thresh, frame_check)\<close> builds with the default
  paths at clock time \<open>now\<close>.
\<close>

definition new_session :: "real \<Rightarrow> int \<Rightarrow> instant \<Rightarrow> detector" where
  "new_session th fc now =
     \<lparr>thresh = th, frame_check = fc,
      model_path = ''models/shape_predictor_68_face_landmarks.dat'',
      music_path = ''music.wav'', log_file = ''drowsiness_log.json'',
      flag = 0, session_start = now, drowsy_events = [], total_frames = 0,
      drowsy_frames = 0, ear_history = []\<rparr>"

section \<open>Runs of low readings\<close>

text \<open>
  The specification speaks of continuous runs of below-threshold frames. \<open>runs P xs\<close>
  are the maximal runs of consecutive elements of \<open>xs\<close> that satisfy \<open>P\<close>, in order.
\<close>

function runs :: "('a \<Rightarrow> bool) \<Rightarrow> 'a list \<Rightarrow> 'a list list" where
  "runs P [] = []"
| "runs P (x # xs) =
     (if P x then (x # takeWhile P xs) # runs P (dropWhile P xs) else runs P xs)"
  by pat_completeness auto
termination
  by (relation "measure (\<lambda>(P, xs). length xs)") (auto simp: length_dropWhile_le less_Suc_eq_le)

text \<open>
  The readings at which a counter hits exactly \<open>fc\<close>, when it starts at \<open>c\<close>, goes up by
  one on every reading that satisfies \<open>P\<close> and falls back to 0 on every other reading.
\<close>

fun emitted :: "('a \<Rightarrow> bool) \<Rightarrow> int \<Rightarrow> int \<Rightarrow> 'a list \<Rightarrow> 'a list" where
  "emitted P fc c [] = []"
| "emitted P fc c (x # xs) =
     (if P x
      then (if c + 1 = fc then x # emitted P fc (c + 1) xs else emitted P fc (c + 1) xs)
      else emitted P fc 0 xs)"

text \<open>The event that a session started at \<open>t0\<close> logs for a reading \<open>e\<close> taken at \<open>now\<close>.\<close>

definition event_at :: "instant \<Rightarrow> instant \<times> real \<Rightarrow> drowsy_event" where
  "event_at t0 = (\<lambda>(now, e). \<lparr>timestamp = now, ear_value = e, session_duration = now - t0\<rparr>)"

definition low :: "real \<Rightarrow> instant \<times> real \<Rightarrow> bool" where
  "low th = (\<lambda>(now, e). e < th)"



section \<open>The session log store\<close>

text \<open>
  \<^verbatim>\<open>json.load\<close> inside \<^verbatim>\<open>try ... except\<close>: \<open>None\<close> when opening or parsing the file raises.
\<close>

definition read_json :: "filesystem \<Rightarrow> string \<Rightarrow> json_doc option" where
  "read_json fs p = (case fs p of Json doc \<Rightarrow> Some doc | _ \<Rightarrow> None)"

definition session_summary :: "instant \<Rightarrow> detector \<Rightarrow> session_data" where
  "session_summary now d =
     \<lparr>log_session_id = session_start d,
      duration_seconds = now - session_start d,
      log_total_frames = total_frames d,
      log_drowsy_frames = drowsy_frames d,
      log_drowsy_events = length (drowsy_events d),
      drowsiness_percentage =
        (real_of_int (drowsy_frames d) / real_of_int (max (total_frames d) 1)) * 100,
      events = drowsy_events d,
      ear_stats =
        \<lparr>ear_mean = (if ear_history d \<noteq> [] then mean (ear_history d) else 0),
         ear_min = (if ear_history d \<noteq> [] then Min (set (ear_history d)) else 0),
         ear_max = (if ear_history d \<noteq> [] then Max (set (ear_history d)) else 0)\<rparr>\<rparr>"

text \<open>
  \<^verbatim>\<open>save_session_log\<close>: the existing log is read (a missing or unparseable file counts
  as the empty list), the summary is appended and the whole list is written back.
  \<^verbatim>\<open>logs.append\<close> raises \<^verbatim>\<open>AttributeError\<close> when the file holds JSON that is not an
  array; that exception is outside the \<^verbatim>\<open>try\<close>.
\<close>

definition save_session_log :: "instant \<Rightarrow> detector \<Rightarrow> filesystem \<Rightarrow> py_error + filesystem" where
  "save_session_log now d fs =
     (case (if exists fs (log_file d)
            then (case read_json fs (log_file d) of Some doc \<Rightarrow> doc | None \<Rightarrow> Logs [])
            else Logs []) of
        Logs logs \<Rightarrow> Inr (fs(log_file d := Json (Logs (logs @ [session_summary now d]))))
      | _ \<Rightarrow> Inl AttributeError)"

definition load_historical_logs :: "detector \<Rightarrow> filesystem \<Rightarrow> json_doc" where
  "load_historical_logs d fs =
     (if exists fs (log_file d)
      then (case read_json fs (log_file d) of Some doc \<Rightarrow> doc | None \<Rightarrow> Logs [])
      else Logs [])"

section \<open>The live session\<close>

text \<open>
  \<^verbatim>\<open>streamlit_app.py\<close> coordinates a background detection run through the file
  \<^verbatim>\<open>live_session_status.json\<close>. The world it acts on: the files, the commands handed to
  \<^verbatim>\<open>subprocess.Popen\<close> so far (each one a detection run), and the number of \<^verbatim>\<open>pkill\<close>
  calls made.
\<close>

record world =
  files :: filesystem
  launched :: "string list list"
  pkills :: nat

definition status_file :: string where
  "status_file = ''live_session_status.json''"

definition inactive :: live_status where
  "inactive = \<lparr>active = Some False, start_time = None, output_file = None, session_id = None,
               end_time = None, completed = None, error = None\<rparr>"

definition check_live_session_status :: "filesystem \<Rightarrow> json_doc" where
  "check_live_session_status fs =
     (if exists fs status_file
      then (case read_json fs status_file of Some doc \<Rightarrow> doc | None \<Rightarrow> Status inactive)
      else Status inactive)"

definition write_status :: "live_status \<Rightarrow> world \<Rightarrow> world" where
  "write_status s w = w\<lparr>files := (files w)(status_file := Json (Status s))\<rparr>"

text \<open>
  What can go wrong inside the \<^verbatim>\<open>try\<close> of \<^verbatim>\<open>run_live_detection\<close> before the process runs:
  creating the output directory, or launching the process; each with the text of its
  exception.
\<close>

datatype fault = NoFault | MakedirsFails string | PopenFails string

definition starting :: "string \<Rightarrow> string \<Rightarrow> live_status" where
  "starting ts stamp =
     \<lparr>active = Some True, start_time = Some stamp,
      output_file = Some (''live_sessions/session_'' @ ts @ ''.mp4''),
      session_id = Some ts, end_time = None, completed = None, error = None\<rparr>"

definition failed :: "string \<Rightarrow> live_status" where
  "failed msg = \<lparr>active = Some False, start_time = None, output_file = None, session_id = None,
                 end_time = None, completed = None, error = Some msg\<rparr>"

definition detection_command :: "string \<Rightarrow> string list" where
  "detection_command ts =
     [''python'', ''realtime_detector.py'', ''--output'',
      ''live_sessions/session_'' @ ts @ ''.mp4'', ''--auto_stop'', ''120'']"

text \<open>
  \<^verbatim>\<open>run_live_detection\<close> up to \<^verbatim>\<open>process.wait()\<close>, with the formatted clock readings \<open>ts\<close>
  (\<^verbatim>\<open>strftime\<close>) and \<open>stamp\<close> (\<^verbatim>\<open>isoformat\<close>): the status is written as active and the
  detection process is launched; an exception writes the error status instead.
\<close>

fun run_live_detection :: "fault \<Rightarrow> string \<Rightarrow> string \<Rightarrow> world \<Rightarrow> world" where
  "run_live_detection (MakedirsFails msg) ts stamp w = write_status (failed msg) w"
| "run_live_detection (PopenFails msg) ts stamp w =
     write_status (failed msg) (write_status (starting ts stamp) w)"
| "run_live_detection NoFault ts stamp w =
     (write_status (starting ts stamp) w)\<lparr>launched := launched w @ [detection_command ts]\<rparr>"

text \<open>The rest of \<^verbatim>\<open>run_live_detection\<close>, once the process has ended at \<open>stamp_end\<close>.\<close>

definition run_live_detection_finished :: "string \<Rightarrow> string \<Rightarrow> string \<Rightarrow> world \<Rightarrow> world" where
  "run_live_detection_finished ts stamp stamp_end w =
     write_status ((starting ts stamp)\<lparr>active := Some False, end_time := Some stamp_end,
                                    completed := Some True\<rparr>) w"

text \<open>
  \<^verbatim>\<open>start_live_detection\<close> starts a thread that executes \<^verbatim>\<open>run_live_detection\<close>; it reads
  nothing before doing so. The model runs the thread's steps up to the launch at once.
\<close>

definition start_live_detection :: "fault \<Rightarrow> string \<Rightarrow> string \<Rightarrow> world \<Rightarrow> world" where
  "start_live_detection f ts stamp w = run_live_detection f ts stamp w"

text \<open>
  The part of \<^verbatim>\<open>live_detection_tab\<close> that acts on the session. The page shows the stop
  button when the status is active and the start button otherwise, so a click can only
  reach the button that is shown. \<^verbatim>\<open>status.get\<close> raises \<^verbatim>\<open>AttributeError\<close> when the
  status file holds JSON that is not an object.
\<close>

datatype click = NoClick | StopClick | StartClick

definition get_active :: "live_status \<Rightarrow> bool" where
  "get_active s = (case active s of Some b \<Rightarrow> b | None \<Rightarrow> False)"

definition live_detection_tab ::
  "click \<Rightarrow> fault \<Rightarrow> string \<Rightarrow> string \<Rightarrow> world \<Rightarrow> py_error + world" where
  "live_detection_tab c f ts stamp w =
     (case check_live_session_status (files w) of
        Status s \<Rightarrow>
          (if get_active s
           then (if c = StopClick
                 then Inr (write_status (s\<lparr>active := Some False\<rparr>) (w\<lparr>pkills := pkills w + 1\<rparr>))
                 else Inr w)
           else (if c = StartClick then Inr (start_live_detection f ts stamp w) else Inr w))
      | _ \<Rightarrow> Inl AttributeError)"

text \<open>The invariant on logged events: each was logged for a reading below the threshold.\<close>

definition events_low :: "detector \<Rightarrow> bool" where
  "events_low d = (\<forall>ev \<in> set (drowsy_events d). ear_value ev < thresh d)"

text \<open>
  A world in which a live session is running: the status file shows it active and its
  detection process has been launched.
\<close>

definition running_world :: world where
  "running_world =
     \<lparr>files = (\<lambda>p. Missing)(status_file :=
                Json (Status (starting ''20240101_120000'' ''2024-01-01T12:00:00''))),
      launched = [detection_command ''20240101_120000''],
      pkills = 0\<rparr>"

section \<open>Frame processing\<close>

lemma subject_step_faces: "faces_detected (snd (subject_step now e p)) = faces_detected (snd p)"
  by (cases p) simp

text \<open>
  C9. A frame without any face adds one to the count of processed frames and changes
  nothing else of the session; the results report no face, an EAR of 0, and neither a
  drowsy frame nor an alert.
\<close>

theorem no_face_frame:
  "process_frame now [] d =
     (d\<lparr>total_frames := total_frames d + 1\<rparr>,
      \<lparr>drowsy = False, ear = 0, faces_detected = 0, alert_triggered = False\<rparr>)"
  by (simp add: process_frame_def)

section \<open>Session statistics\<close>

text \<open>
  C6. The statistics of a session that has processed no frame (the state left by
  \<^verbatim>\<open>reset_session\<close>): the drowsiness percentage, the average EAR and the current EAR are
  all 0. The percentage divides by \<open>max total_frames 1\<close>, and the two EAR entries take
  the branch for an empty history; the function has no failing path.
\<close>

theorem empty_session_stats:
  "stats_drowsiness_percentage (get_session_stats now (reset_session t0 d)) = 0
   \<and> avg_ear (get_session_stats now (reset_session t0 d)) = 0
   \<and> current_ear (get_session_stats now (reset_session t0 d)) = 0
   \<and> stats_total_frames (get_session_stats now (reset_session t0 d)) = 0"
  by (simp add: get_session_stats_def reset_session_def)

text \<open>
  C1. The count of drowsy frames is incremented inside the loop over the faces, the
  count of processed frames once per call. A first frame with two faces, both below the
  threshold, leaves \<open>total_frames = 1\<close> and \<open>drowsy_frames = 2\<close>, and a drowsiness
  percentage of 200.
\<close>

theorem two_faces_overcount:
  "total_frames (fst (process_frame 0 [1/10, 1/10] (new_session (1/4) 20 0))) = 1
   \<and> drowsy_frames (fst (process_frame 0 [1/10, 1/10] (new_session (1/4) 20 0))) = 2
   \<and> stats_drowsiness_percentage
        (get_session_stats 1 (fst (process_frame 0 [1/10, 1/10] (new_session (1/4) 20 0)))) = 200"
  by (simp add: process_frame_def new_session_def get_session_stats_def)

section \<open>Construction\<close>

text \<open>
  C8, as the code has it. The constructor checks neither the threshold nor the frame
  count: whether it succeeds or raises, and what it raises, is the same for every pair
  of values, and a detector it returns holds the two values as given.
\<close>

theorem construction_unchecked:
  "DrowsinessDetector th fc mp mu lf now env fs =
     map_sum id (\<lambda>d. d\<lparr>thresh := th, frame_check := fc\<rparr>)
       (DrowsinessDetector th' fc' mp mu lf now env fs)
   \<and> (\<forall>d. DrowsinessDetector th fc mp mu lf now env fs = Inr d \<longrightarrow>
          thresh d = th \<and> frame_check d = fc)"
  by (auto simp: DrowsinessDetector_def reset_session_def)

theorem construction_unchecked_witness:
  "DrowsinessDetector 2 (-5) ''models/shape_predictor_68_face_landmarks.dat'' ''music.wav''
      ''drowsiness_log.json'' 0 working_libraries (\<lambda>p. Unparseable) = Inr (new_session 2 (-5) 0)
   \<and> thresh (new_session 2 (-5) 0) = 2 \<and> frame_check (new_session 2 (-5) 0) = -5"
proof -
  have built: "DrowsinessDetector 2 (-5) ''models/shape_predictor_68_face_landmarks.dat''
      ''music.wav'' ''drowsiness_log.json'' 0 working_libraries (\<lambda>p. Unparseable)
        = Inr (new_session 2 (-5) 0)"
    by (simp add: DrowsinessDetector_def reset_session_def new_session_def exists_def
        working_libraries_def)
  with construction_unchecked [of 2 "-5" "''models/shape_predictor_68_face_landmarks.dat''"
      "''music.wav''" "''drowsiness_log.json''" 0 working_libraries "\<lambda>p. Unparseable" 2 "-5"]
  show ?thesis by simp
qed

text \<open>
  C8, as stated, fails: a negative threshold and a frame count of 0 are accepted.
\<close>

theorem construction_counterexample:
  "DrowsinessDetector (-1) 0 ''models/shape_predictor_68_face_landmarks.dat'' ''music.wav''
      ''drowsiness_log.json'' 0 working_libraries (\<lambda>p. Unparseable)
     = Inr (new_session (-1) 0 0)"
  by (simp add: DrowsinessDetector_def reset_session_def new_session_def exists_def
      working_libraries_def)

section \<open>Appending to and loading the session log\<close>

text \<open>
  C7. On a log file that is missing or not parseable, loading gives the empty list;
  saving a session writes the list of exactly that summary, which loading returns; a
  second save to the same file gives the list of both summaries in the order saved.
\<close>

theorem log_store_append_load:
  assumes "fs (log_file d) = Missing \<or> fs (log_file d) = Unparseable"
    and "log_file d2 = log_file d"
  shows "load_historical_logs d fs = Logs []
   \<and> save_session_log t1 d fs = Inr (fs(log_file d := Json (Logs [session_summary t1 d])))
   \<and> load_historical_logs d (fs(log_file d := Json (Logs [session_summary t1 d])))
       = Logs [session_summary t1 d]
   \<and> save_session_log t2 d2 (fs(log_file d := Json (Logs [session_summary t1 d])))
       = Inr (fs(log_file d := Json (Logs [session_summary t1 d, session_summary t2 d2])))
   \<and> load_historical_logs d
         (fs(log_file d := Json (Logs [session_summary t1 d, session_summary t2 d2])))
       = Logs [session_summary t1 d, session_summary t2 d2]"
  using assms
  by (auto simp: load_historical_logs_def save_session_log_def exists_def read_json_def)

theorem log_store_append_load_witness:
  "load_historical_logs (new_session (1/4) 20 0) (\<lambda>p. Unparseable) = Logs []
   \<and> save_session_log 5 (new_session (1/4) 20 0) (\<lambda>p. Unparseable)
       = Inr ((\<lambda>p. Unparseable)(''drowsiness_log.json'' :=
                Json (Logs [session_summary 5 (new_session (1/4) 20 0)])))
   \<and> load_historical_logs (new_session (1/4) 20 0)
         ((\<lambda>p. Unparseable)(''drowsiness_log.json'' :=
            Json (Logs [session_summary 5 (new_session (1/4) 20 0),
                        session_summary 9 (new_session (3/10) 5 7)])))
       = Logs [session_summary 5 (new_session (1/4) 20 0),
               session_summary 9 (new_session (3/10) 5 7)]"
  using log_store_append_load
    [of "\<lambda>p. Unparseable" "new_session (1/4) 20 0" "new_session (3/10) 5 7" 5 9]
  by (simp add: new_session_def)

section \<open>Logged events\<close>

lemma subject_step_config:
  "thresh (fst (subject_step now e p)) = thresh (fst p)
   \<and> frame_check (fst (subject_step now e p)) = frame_check (fst p)
   \<and> session_start (fst (subject_step now e p)) = session_start (fst p)"
  by (cases p) (simp add: log_drowsy_event_def)

lemma subject_step_events_low:
  assumes "events_low (fst p)"
  shows "events_low (fst (subject_step now e p))"
proof (cases p)
  case (Pair d r)
  with assms have old: "\<forall>ev \<in> set (drowsy_events d). ear_value ev < thresh d"
    by (simp add: events_low_def)
  show ?thesis
  proof (cases "e < thresh d")
    case True
    with old Pair show ?thesis
      by (auto simp: events_low_def log_drowsy_event_def)
  next
    case False
    with old Pair show ?thesis
      by (simp add: events_low_def)
  qed
qed

lemma fold_subject_step_events_low:
  "events_low (fst p) \<Longrightarrow> events_low (fst (fold (subject_step now) es p))"
  by (induction es arbitrary: p) (simp_all add: subject_step_events_low)

lemma process_frame_events_low:
  "events_low d \<Longrightarrow> events_low (fst (process_frame now subjects d))"
  unfolding process_frame_def
  by (rule fold_subject_step_events_low) (simp add: events_low_def)

lemma apply_call_events_low: "events_low d \<Longrightarrow> events_low (apply_call c d)"
  by (cases c) (simp_all add: process_frame_events_low, simp add: events_low_def reset_session_def)

lemma fold_subject_step_thresh:
  "thresh (fst (fold (subject_step now) es p)) = thresh (fst p)"
  by (induction es arbitrary: p) (simp_all add: subject_step_config)

lemma apply_call_thresh: "thresh (apply_call c d) = thresh d"
  by (cases c) (simp_all add: process_frame_def fold_subject_step_thresh reset_session_def)

lemma session_calls_thresh: "thresh (session_calls cs d) = thresh d"
  unfolding session_calls_def
  by (induction cs arbitrary: d) (simp_all add: apply_call_thresh)

lemma session_calls_events_low: "events_low d \<Longrightarrow> events_low (session_calls cs d)"
  unfolding session_calls_def
  by (induction cs arbitrary: d) (simp_all add: apply_call_events_low)

text \<open>
  C10. Whatever sequence of \<^verbatim>\<open>process_frame\<close> and \<^verbatim>\<open>reset_session\<close> calls a session
  receives after its start, every event in its list was logged with an EAR strictly
  below the threshold of the detector.
\<close>

theorem logged_events_below_threshold:
  "\<forall>ev \<in> set (drowsy_events (session_calls cs (reset_session t0 d))). ear_value ev < thresh d"
proof -
  have start: "events_low (reset_session t0 d)"
    by (simp add: events_low_def reset_session_def)
  then have inv: "events_low (session_calls cs (reset_session t0 d))"
    by (rule session_calls_events_low)
  moreover have "thresh (session_calls cs (reset_session t0 d)) = thresh d"
    by (simp add: session_calls_thresh reset_session_def)
  ultimately show ?thesis
    by (simp add: events_low_def)
qed

theorem logged_events_below_threshold_witness:
  "drowsy_events (session_calls [ProcessFrame 1 [1/5], ProcessFrame 2 [1/10]]
      (reset_session 0 (new_session (1/4) 2 0)))
     = [\<lparr>timestamp = 2, ear_value = 1/10, session_duration = 2\<rparr>]
   \<and> ear_value \<lparr>timestamp = 2, ear_value = 1/10, session_duration = 2\<rparr>
       < thresh (new_session (1/4) 2 0)"
proof -
  have logged: "drowsy_events (session_calls [ProcessFrame 1 [1/5], ProcessFrame 2 [1/10]]
      (reset_session 0 (new_session (1/4) 2 0)))
     = [\<lparr>timestamp = 2, ear_value = 1/10, session_duration = 2\<rparr>]"
    by (simp add: session_calls_def process_frame_def reset_session_def new_session_def
        log_drowsy_event_def)
  with logged_events_below_threshold
    [of "[ProcessFrame 1 [1/5], ProcessFrame 2 [1/10]]" 0 "new_session (1/4) 2 0"]
  show ?thesis
    by (simp del: drowsy_event.simps)
qed

section \<open>Frames with several faces\<close>



lemma fold_subject_step_drowsy:
  "drowsy (snd (fold (subject_step now) es p)) =
     (drowsy (snd p) \<or> (\<exists>e \<in> set es. e < thresh (fst p)))"
proof (induction es arbitrary: p)
  case Nil
  show ?case by simp
next
  case (Cons e es)
  obtain d r where p: "p = (d, r)" by (cases p)
  have "thresh (fst (subject_step now e p)) = thresh (fst p)"
    by (simp add: subject_step_config)
  moreover have "drowsy (snd (subject_step now e p)) = (drowsy (snd p) \<or> e < thresh (fst p))"
    by (simp add: p)
  ultimately show ?case
    using Cons.IH [of "subject_step now e p"] by auto
qed

lemma fold_subject_step_ear:
  "es \<noteq> [] \<Longrightarrow> ear (snd (fold (subject_step now) es p)) = last es"
proof (induction es rule: rev_induct)
  case Nil
  then show ?case by simp
next
  case (snoc e es)
  obtain d r where "fold (subject_step now) es p = (d, r)"
    by (cases "fold (subject_step now) es p")
  then show ?case by simp
qed

text \<open>
  C5, as the code has it. Every face reading is classified by the strict test
  \<open>e < thresh\<close>: a reading below the threshold counts as drowsy and advances the counter
  of consecutive low readings, any other reading, one exactly at the threshold
  included, counts nothing, logs nothing and sets the counter to 0. The verdict of a
  frame is drowsy iff one of its readings is below the threshold, and the EAR it
  reports is that of the last face. A frame with a single face is therefore drowsy iff
  its EAR is below the threshold, and at the threshold it is not drowsy, raises no
  alert and ends the run.
\<close>

theorem reading_strict_threshold:
  "drowsy (snd (process_frame now subjects d)) = (\<exists>e \<in> set subjects. e < thresh d)
   \<and> ear (snd (process_frame now subjects d)) = (if subjects = [] then 0 else last subjects)
   \<and> flag (fst (subject_step now e (d, r))) = (if e < thresh d then flag d + 1 else 0)
   \<and> drowsy_frames (fst (subject_step now e (d, r)))
       = (if e < thresh d then drowsy_frames d + 1 else drowsy_frames d)
   \<and> drowsy (snd (subject_step now e (d, r))) = (drowsy r \<or> e < thresh d)
   \<and> flag (fst (subject_step now (thresh d) (d, r))) = 0
   \<and> drowsy_frames (fst (subject_step now (thresh d) (d, r))) = drowsy_frames d
   \<and> drowsy_events (fst (subject_step now (thresh d) (d, r))) = drowsy_events d
   \<and> drowsy (snd (subject_step now (thresh d) (d, r))) = drowsy r
   \<and> alert_triggered (snd (subject_step now (thresh d) (d, r))) = alert_triggered r
   \<and> drowsy (snd (process_frame now [e] d)) = (e < thresh d)
   \<and> flag (fst (process_frame now [e] d)) = (if e < thresh d then flag d + 1 else 0)
   \<and> drowsy_frames (fst (process_frame now [e] d))
       = (if e < thresh d then drowsy_frames d + 1 else drowsy_frames d)
   \<and> \<not> drowsy (snd (process_frame now [thresh d] d))
   \<and> \<not> alert_triggered (snd (process_frame now [thresh d] d))
   \<and> flag (fst (process_frame now [thresh d] d)) = 0
   \<and> drowsy_frames (fst (process_frame now [thresh d] d)) = drowsy_frames d
   \<and> drowsy_events (fst (process_frame now [thresh d] d)) = drowsy_events d"
proof -
  have verdict: "drowsy (snd (process_frame now subjects d)) = (\<exists>e \<in> set subjects. e < thresh d)"
    by (simp add: process_frame_def fold_subject_step_drowsy)
  have reported: "ear (snd (process_frame now subjects d))
      = (if subjects = [] then 0 else last subjects)"
    by (simp add: process_frame_def fold_subject_step_ear)
  have reading: "flag (fst (subject_step now e (d, r))) = (if e < thresh d then flag d + 1 else 0)
     \<and> drowsy_frames (fst (subject_step now e (d, r)))
         = (if e < thresh d then drowsy_frames d + 1 else drowsy_frames d)
     \<and> drowsy (snd (subject_step now e (d, r))) = (drowsy r \<or> e < thresh d)"
    by (simp add: log_drowsy_event_def)
  have boundary: "flag (fst (subject_step now (thresh d) (d, r))) = 0
     \<and> drowsy_frames (fst (subject_step now (thresh d) (d, r))) = drowsy_frames d
     \<and> drowsy_events (fst (subject_step now (thresh d) (d, r))) = drowsy_events d
     \<and> drowsy (snd (subject_step now (thresh d) (d, r))) = drowsy r
     \<and> alert_triggered (snd (subject_step now (thresh d) (d, r))) = alert_triggered r"
    by simp
  have single: "drowsy (snd (process_frame now [e] d)) = (e < thresh d)
     \<and> flag (fst (process_frame now [e] d)) = (if e < thresh d then flag d + 1 else 0)
     \<and> drowsy_frames (fst (process_frame now [e] d))
         = (if e < thresh d then drowsy_frames d + 1 else drowsy_frames d)"
    by (simp add: process_frame_def log_drowsy_event_def)
  have single_boundary: "\<not> drowsy (snd (process_frame now [thresh d] d))
     \<and> \<not> alert_triggered (snd (process_frame now [thresh d] d))
     \<and> flag (fst (process_frame now [thresh d] d)) = 0
     \<and> drowsy_frames (fst (process_frame now [thresh d] d)) = drowsy_frames d
     \<and> drowsy_events (fst (process_frame now [thresh d] d)) = drowsy_events d"
    by (simp add: process_frame_def)
  from verdict reported reading boundary single single_boundary show ?thesis
    by (intro conjI) (erule conjunct1 | erule conjunct2 | assumption | blast)+
qed

text \<open>
  C5, as stated, fails on frames with several faces: a frame whose reported EAR is
  exactly the threshold is drowsy when an earlier face of it was below the threshold,
  and a frame with a reading at the threshold ends with the counter at 1 when a later
  face of it was below the threshold.
\<close>

theorem frame_at_threshold_counterexample:
  "drowsy (snd (process_frame 0 [1/10, 1/4] (new_session (1/4) 20 0)))
   \<and> ear (snd (process_frame 0 [1/10, 1/4] (new_session (1/4) 20 0)))
       = thresh (new_session (1/4) 20 0)
   \<and> flag (fst (process_frame 0 [1/4, 1/10] (new_session (1/4) 20 0))) = 1"
  by (simp add: process_frame_def new_session_def)




text \<open>
  When every frame shows at most one face, the count of drowsy frames stays within the
  count of processed frames.
\<close>

lemma subject_step_counts:
  "drowsy_frames (fst (subject_step now e p)) \<le> drowsy_frames (fst p) + 1
   \<and> total_frames (fst (subject_step now e p)) = total_frames (fst p)"
  by (cases p) (simp add: log_drowsy_event_def)

lemma one_face_frames_invariant:
  assumes "length subjects \<le> 1" and "drowsy_frames d \<le> total_frames d"
  shows "drowsy_frames (fst (process_frame now subjects d))
           \<le> total_frames (fst (process_frame now subjects d))"
proof (cases subjects)
  case Nil
  with assms show ?thesis by (simp add: process_frame_def)
next
  case (Cons e es)
  with assms have "es = []" by simp
  with Cons assms subject_step_counts
    [of now e "(d\<lparr>total_frames := total_frames d + 1\<rparr>,
        \<lparr>drowsy = False, ear = 0, faces_detected = 1, alert_triggered = False\<rparr>)"]
  show ?thesis
    by (simp add: process_frame_def del: subject_step.simps)
qed

section \<open>Starting a live session\<close>

text \<open>
  C4, as the code has it. \<^verbatim>\<open>start_live_detection\<close> does not read the status record:
  whatever it shows, a new active status is written and one more detection run is
  launched. The check is made by the caller: \<^verbatim>\<open>live_detection_tab\<close> reaches
  \<^verbatim>\<open>start_live_detection\<close> only when the status read by \<^verbatim>\<open>check_live_session_status\<close>
  is not active; while it is active the page launches nothing.
\<close>

theorem start_unguarded:
  "launched (start_live_detection NoFault ts stamp w) = launched w @ [detection_command ts]
   \<and> check_live_session_status (files (start_live_detection NoFault ts stamp w))
       = Status (starting ts stamp)
   \<and> (check_live_session_status (files w) = Status s \<and> get_active s \<longrightarrow>
        live_detection_tab c f ts stamp w =
          Inr (if c = StopClick
               then write_status (s\<lparr>active := Some False\<rparr>) (w\<lparr>pkills := pkills w + 1\<rparr>)
               else w)
        \<and> map_sum id launched (live_detection_tab c f ts stamp w) = Inr (launched w))
   \<and> (check_live_session_status (files w) = Status s \<and> \<not> get_active s \<longrightarrow>
        live_detection_tab StartClick f ts stamp w = Inr (start_live_detection f ts stamp w))"
  by (simp add: start_live_detection_def write_status_def check_live_session_status_def
      exists_def read_json_def live_detection_tab_def)

theorem start_unguarded_witness:
  "get_active (starting ''20240101_120000'' ''2024-01-01T12:00:00'')
   \<and> live_detection_tab StartClick NoFault ''20240101_120500'' ''2024-01-01T12:05:00''
        running_world = Inr running_world
   \<and> live_detection_tab StartClick NoFault ''20240101_120500'' ''2024-01-01T12:05:00''
        (write_status inactive running_world)
       = Inr (start_live_detection NoFault ''20240101_120500'' ''2024-01-01T12:05:00''
               (write_status inactive running_world))"
  using start_unguarded [of "''20240101_120500''" "''2024-01-01T12:05:00''" running_world
      "starting ''20240101_120000'' ''2024-01-01T12:00:00''" StartClick NoFault]
    start_unguarded [of "''20240101_120500''" "''2024-01-01T12:05:00''"
      "write_status inactive running_world" inactive StartClick NoFault]
  by (simp add: running_world_def check_live_session_status_def exists_def read_json_def
      get_active_def starting_def inactive_def write_status_def status_file_def)

text \<open>
  C4, as stated, fails: called while the status record shows an active session,
  \<^verbatim>\<open>start_live_detection\<close> launches a second detection run.
\<close>

theorem start_while_active_counterexample:
  "check_live_session_status (files running_world)
     = Status (starting ''20240101_120000'' ''2024-01-01T12:00:00'')
   \<and> active (starting ''20240101_120000'' ''2024-01-01T12:00:00'') = Some True
   \<and> launched running_world = [detection_command ''20240101_120000'']
   \<and> launched (start_live_detection NoFault ''20240101_120500'' ''2024-01-01T12:05:00''
        running_world)
       = [detection_command ''20240101_120000'', detection_command ''20240101_120500'']"
  by (simp add: running_world_def check_live_session_status_def exists_def read_json_def
      starting_def start_live_detection_def write_status_def status_file_def)

section \<open>Events of a session with one face\<close>

lemma single_frame_config:
  "thresh (fst (process_frame now [e] d)) = thresh d
   \<and> frame_check (fst (process_frame now [e] d)) = frame_check d
   \<and> session_start (fst (process_frame now [e] d)) = session_start d"
  by (simp add: process_frame_def log_drowsy_event_def)

lemma single_frame_flag:
  "flag (fst (process_frame now [e] d)) = (if e < thresh d then flag d + 1 else 0)"
  by (simp add: process_frame_def log_drowsy_event_def)

lemma single_frame_events:
  "drowsy_events (fst (process_frame now [e] d)) =
     (if e < thresh d \<and> flag d + 1 = frame_check d
      then drowsy_events d @ [event_at (session_start d) (now, e)]
      else drowsy_events d)"
  by (simp add: process_frame_def log_drowsy_event_def event_at_def)

lemma single_frame_alert:
  "alert_triggered (snd (process_frame now [e] d)) = (e < thresh d \<and> frame_check d \<le> flag d + 1)"
  by (simp add: process_frame_def log_drowsy_event_def)

lemma process_frames_Cons:
  "process_frames (single_face ((now, e) # tes)) d
     = process_frames (single_face tes) (fst (process_frame now [e] d))"
  by (simp add: process_frames_def single_face_def)

lemma process_frames_emitted:
  "drowsy_events (process_frames (single_face tes) d) =
     drowsy_events d @
       map (event_at (session_start d)) (emitted (low (thresh d)) (frame_check d) (flag d) tes)"
proof (induction tes arbitrary: d)
  case Nil
  show ?case by (simp add: process_frames_def single_face_def)
next
  case (Cons te tes)
  obtain now e where te: "te = (now, e)" by (cases te)
  let ?d = "fst (process_frame now [e] d)"
  show ?case
    unfolding te process_frames_Cons Cons.IH [of ?d]
    by (simp add: single_frame_config single_frame_flag single_frame_events low_def)
qed

lemma process_frames_flag:
  "flag (process_frames (single_face tes) d) =
     (if \<forall>te \<in> set tes. low (thresh d) te
      then flag d + int (length tes)
      else int (length (takeWhile (low (thresh d)) (rev tes))))"
proof (induction tes arbitrary: d)
  case Nil
  show ?case by (simp add: process_frames_def single_face_def)
next
  case (Cons te tes)
  obtain now e where te: "te = (now, e)" by (cases te)
  let ?d = "fst (process_frame now [e] d)"
  have tw: "takeWhile P (xs @ [x]) = (if \<forall>y \<in> set xs. P y then (if P x then xs @ [x] else xs) else takeWhile P xs)"
    for P :: "'b \<Rightarrow> bool" and xs x
    by (induction xs) auto
  show ?case
    unfolding te process_frames_Cons Cons.IH [of ?d]
    by (auto simp: single_frame_config single_frame_flag low_def tw)
qed

lemma emitted_run:
  assumes "\<forall>y \<in> set ys. P y"
  shows "emitted P fc c (ys @ zs) =
     (if c < fc \<and> fc \<le> c + int (length ys) then [ys ! nat (fc - c - 1)] else [])
       @ emitted P fc (c + int (length ys)) zs"
  using assms
proof (induction ys arbitrary: c)
  case Nil
  show ?case by simp
next
  case (Cons y ys)
  then have y: "P y" and ys: "\<forall>y \<in> set ys. P y" by simp_all
  show ?case
  proof (cases "c + 1 = fc")
    case True
    then have fc: "fc = c + 1" by simp
    from y Cons.IH [OF ys, of "c + 1"] show ?thesis
      unfolding fc by (simp add: add.assoc)
  next
    case False
    have idx: "nat (fc - c - 1) - Suc 0 = nat (fc - c - 2)" if "c + 1 < fc"
      using that by arith
    from False have lt: "c < fc \<longleftrightarrow> c + 1 < fc" by auto
    from False y Cons.IH [OF ys, of "c + 1"] show ?thesis
      by (auto simp: add.assoc lt idx)
  qed
qed

lemma emitted_restart:
  assumes "zs = [] \<or> \<not> P (hd zs)"
  shows "emitted P fc c zs = emitted P fc 0 zs"
  using assms by (cases zs) auto

lemma emitted_runs:
  "emitted P fc 0 xs =
     map (\<lambda>r. r ! nat (fc - 1)) (filter (\<lambda>r. 1 \<le> fc \<and> fc \<le> int (length r)) (runs P xs))"
proof (induction P xs rule: runs.induct)
  case (1 P)
  show ?case by simp
next
  case (2 P x xs)
  show ?case
  proof (cases "P x")
    case False
    with 2 show ?thesis by simp
  next
    case True
    let ?run = "x # takeWhile P xs"
    let ?rest = "dropWhile P xs"
    have split: "x # xs = ?run @ ?rest" by simp
    have all: "\<forall>y \<in> set ?run. P y"
      using True by (auto dest: set_takeWhileD)
    have stop: "?rest = [] \<or> \<not> P (hd ?rest)"
      by (metis hd_dropWhile)
    have "emitted P fc 0 (x # xs) = emitted P fc 0 (?run @ ?rest)"
      by (simp only: split [symmetric])
    also have "\<dots> = (if 0 < fc \<and> fc \<le> 0 + int (length ?run) then [?run ! nat (fc - 0 - 1)] else [])
                      @ emitted P fc (0 + int (length ?run)) ?rest"
      by (rule emitted_run [OF all])
    also have "emitted P fc (0 + int (length ?run)) ?rest = emitted P fc 0 ?rest"
      using stop by (rule emitted_restart)
    also have "emitted P fc 0 ?rest =
        map (\<lambda>r. r ! nat (fc - 1)) (filter (\<lambda>r. 1 \<le> fc \<and> fc \<le> int (length r)) (runs P ?rest))"
      using 2 True by simp
    finally show ?thesis
      using True by (simp del: emitted.simps)
  qed
qed

lemma runs_skip:
  "\<forall>y \<in> set ys. \<not> P y \<Longrightarrow> runs P (ys @ rest) = runs P rest"
  by (induction ys) simp_all

lemma runs_run:
  assumes "xs \<noteq> []" and "\<forall>x \<in> set xs. P x" and "rest = [] \<or> \<not> P (hd rest)"
  shows "runs P (xs @ rest) = xs # runs P rest"
proof (cases xs)
  case Nil
  with assms show ?thesis by simp
next
  case (Cons x xs')
  with assms have x: "P x" and xs': "\<forall>x \<in> set xs'. P x" by simp_all
  from assms(3) have tw: "takeWhile P rest = []" and dw: "dropWhile P rest = rest"
    by (cases rest; simp)+
  from xs' have "takeWhile P (xs' @ rest) = xs' @ takeWhile P rest"
    and "dropWhile P (xs' @ rest) = dropWhile P rest"
    by (simp_all add: takeWhile_append2 dropWhile_append2)
  with tw dw x Cons show ?thesis by simp
qed

lemma runs_two:
  assumes "xs \<noteq> []" "\<forall>x \<in> set xs. P x" "ys \<noteq> []" "\<forall>y \<in> set ys. \<not> P y"
    "zs \<noteq> []" "\<forall>z \<in> set zs. P z"
  shows "runs P (xs @ ys @ zs) = [xs, zs]"
proof -
  from assms(3,4) have "ys @ zs = [] \<or> \<not> P (hd (ys @ zs))"
    by (cases ys) simp_all
  then have "runs P (xs @ ys @ zs) = xs # runs P (ys @ zs)"
    using assms(1,2) by (intro runs_run) simp_all
  also have "runs P (ys @ zs) = runs P zs"
    using assms(4) by (rule runs_skip)
  also have "runs P zs = [zs]"
    using runs_run [OF assms(5,6), of "[]"] by simp
  finally show ?thesis .
qed


text \<open>
  C3. In a session whose frames each show one face, the logged events are exactly one
  per continuous run of below-threshold frames that reaches the frame count: the event
  of such a run is logged for its frame number \<open>frame_check\<close>, the frame at which the
  counter of consecutive low frames, which is the length of the run so far, equals
  \<open>frame_check\<close>. Every later frame of the run raises the alert and logs nothing. Two
  runs that reach the frame count, separated by frames that are not low, log two
  events.
\<close>

theorem one_event_per_run:
  "drowsy_events (process_frames (single_face tes) (reset_session t0 d)) =
     map (event_at t0)
       (map (\<lambda>r. r ! nat (frame_check d - 1))
         (filter (\<lambda>r. 1 \<le> frame_check d \<and> frame_check d \<le> int (length r))
           (runs (low (thresh d)) tes)))
   \<and> flag (process_frames (single_face tes) (reset_session t0 d))
       = int (length (takeWhile (low (thresh d)) (rev tes)))
   \<and> drowsy_events (fst (process_frame now [e] s)) =
       (if e < thresh s \<and> flag s + 1 = frame_check s
        then drowsy_events s @ [event_at (session_start s) (now, e)]
        else drowsy_events s)
   \<and> alert_triggered (snd (process_frame now [e] s))
       = (e < thresh s \<and> frame_check s \<le> flag s + 1)
   \<and> (1 \<le> frame_check d
        \<and> frame_check d \<le> int (length xs) \<and> (\<forall>x \<in> set xs. low (thresh d) x)
        \<and> ys \<noteq> [] \<and> (\<forall>y \<in> set ys. \<not> low (thresh d) y)
        \<and> frame_check d \<le> int (length zs) \<and> (\<forall>z \<in> set zs. low (thresh d) z) \<longrightarrow>
       drowsy_events (process_frames (single_face (xs @ ys @ zs)) (reset_session t0 d))
         = [event_at t0 (xs ! nat (frame_check d - 1)),
            event_at t0 (zs ! nat (frame_check d - 1))])"
proof -
  let ?start = "reset_session t0 d"
  have start: "drowsy_events ?start = []" "flag ?start = 0" "session_start ?start = t0"
    "thresh ?start = thresh d" "frame_check ?start = frame_check d"
    by (simp_all add: reset_session_def)
  have logged: "drowsy_events (process_frames (single_face tes) ?start) =
      map (event_at t0)
        (map (\<lambda>r. r ! nat (frame_check d - 1))
          (filter (\<lambda>r. 1 \<le> frame_check d \<and> frame_check d \<le> int (length r))
            (runs (low (thresh d)) tes)))" for tes
    by (simp only: process_frames_emitted start emitted_runs append_Nil)
  have counter: "flag (process_frames (single_face tes) ?start)
      = int (length (takeWhile (low (thresh d)) (rev tes)))"
  proof (cases "\<forall>te \<in> set tes. low (thresh d) te")
    case True
    then have "takeWhile (low (thresh d)) (rev tes) = rev tes"
      by (simp add: takeWhile_eq_all_conv)
    then have "length (takeWhile (low (thresh d)) (rev tes)) = length tes"
      by (simp only: length_rev)
    with True show ?thesis
      by (simp add: process_frames_flag start)
  next
    case False
    then show ?thesis
      by (auto simp: process_frames_flag start)
  qed
  have two: "drowsy_events (process_frames (single_face (xs @ ys @ zs)) ?start)
         = [event_at t0 (xs ! nat (frame_check d - 1)),
            event_at t0 (zs ! nat (frame_check d - 1))]"
    if fc: "1 \<le> frame_check d"
      and xs: "frame_check d \<le> int (length xs)" "\<forall>x \<in> set xs. low (thresh d) x"
      and ys: "ys \<noteq> []" "\<forall>y \<in> set ys. \<not> low (thresh d) y"
      and zs: "frame_check d \<le> int (length zs)" "\<forall>z \<in> set zs. low (thresh d) z"
  proof -
    from fc xs(1) zs(1) have "xs \<noteq> []" and "zs \<noteq> []" by auto
    then have "runs (low (thresh d)) (xs @ ys @ zs) = [xs, zs]"
      using xs(2) ys zs(2) by (intro runs_two)
    with fc xs(1) zs(1) show ?thesis
      by (simp add: logged)
  qed
  from logged [of tes] counter single_frame_events [of now e s] single_frame_alert [of now e s] two
  show ?thesis by blast
qed

theorem one_event_per_run_witness:
  "drowsy_events (process_frames
      (single_face [(1, 1/10), (2, 1/10), (3, 1/10), (4, 3/10), (5, 1/5), (6, 1/5)])
      (reset_session 0 (new_session (1/4) 2 0)))
     = [\<lparr>timestamp = 2, ear_value = 1/10, session_duration = 2\<rparr>,
        \<lparr>timestamp = 6, ear_value = 1/5, session_duration = 6\<rparr>]"
proof -
  let ?d = "new_session (1/4) 2 0"
  let ?xs = "[(1, 1/10), (2, 1/10), (3, 1/10)] :: (instant \<times> real) list"
  let ?ys = "[(4, 3/10)] :: (instant \<times> real) list"
  let ?zs = "[(5, 1/5), (6, 1/5)] :: (instant \<times> real) list"
  have config: "thresh ?d = 1/4" "frame_check ?d = 2"
    by (simp_all add: new_session_def)
  have hyps: "1 \<le> frame_check ?d
        \<and> frame_check ?d \<le> int (length ?xs) \<and> (\<forall>x \<in> set ?xs. low (thresh ?d) x)
        \<and> ?ys \<noteq> [] \<and> (\<forall>y \<in> set ?ys. \<not> low (thresh ?d) y)
        \<and> frame_check ?d \<le> int (length ?zs) \<and> (\<forall>z \<in> set ?zs. low (thresh ?d) z)"
    by (simp add: config low_def)
  from one_event_per_run [where d = ?d and xs = ?xs and ys = ?ys and zs = ?zs and ?t0.0 = 0] hyps
  have "drowsy_events (process_frames (single_face (?xs @ ?ys @ ?zs)) (reset_session 0 ?d))
         = [event_at 0 (?xs ! nat (frame_check ?d - 1)),
            event_at 0 (?zs ! nat (frame_check ?d - 1))]"
    by blast
  then show ?thesis
    by (simp add: config event_at_def)
qed

end
